theory Spec2Isabelle
  imports Complex_Main "HOL-Library.Sublist"
begin

section \<open>Paths, configuration and the two patterns\<close>

text \<open>
  Paths and file contents are strings. A path is written the way the program writes it:
  relative to the working directory and normalised as \<^verbatim>\<open>os.path.relpath\<close> does.
  Characters are 8-bit and read as ASCII; the classes \<^verbatim>\<open>\d\<close> and \<^verbatim>\<open>\w\<close> are given on
  ASCII (Python's tables for code points beyond ASCII are library data).
\<close>

type_synonym path = string
type_synonym content = string

definition STVERSIONS_DIR :: path where
  "STVERSIONS_DIR = ''.stversions''"

definition CHECK_DIR :: path where
  "CHECK_DIR = ''.''"

definition MIN_IDLE_TIME :: int where
  "MIN_IDLE_TIME = 600"

definition newline :: char where
  "newline = CHR 0x0A"

definition is_digit :: "char \<Rightarrow> bool" where
  "is_digit c = (let n = (of_char c :: nat) in 48 \<le> n \<and> n \<le> 57)"

definition is_word :: "char \<Rightarrow> bool" where
  "is_word c = (let n = (of_char c :: nat) in
     (48 \<le> n \<and> n \<le> 57) \<or> (65 \<le> n \<and> n \<le> 90) \<or> (97 \<le> n \<and> n \<le> 122) \<or> n = 95)"

text \<open>
  The pieces of a pattern consume a prefix of the subject and give back what is left:
  \<open>lit\<close> a literal (what \<^verbatim>\<open>re.escape\<close> produces matches nothing else), \<open>rep\<close> a class repeated
  an exact number of times.
\<close>

fun lit :: "string \<Rightarrow> string \<Rightarrow> string option" where
  "lit [] s = Some s"
| "lit (c # cs) [] = None"
| "lit (c # cs) (d # ds) = (if c = d then lit cs ds else None)"

fun rep :: "(char \<Rightarrow> bool) \<Rightarrow> nat \<Rightarrow> string \<Rightarrow> string option" where
  "rep P 0 s = Some s"
| "rep P (Suc n) [] = None"
| "rep P (Suc n) (d # ds) = (if P d then rep P n ds else None)"

text \<open>
  \<^verbatim>\<open>CONFLICT_REGEX = ^(.*?)(?:\.|%2F)sync-conflict-\d{8}-\d{6}-\w{7}\.?(.*)$\<close>.

  \<open>sep\<close> is the alternation \<^verbatim>\<open>(?:\.|%2F)\<close>. \<open>rest_of_line\<close> is \<^verbatim>\<open>(.*)$\<close>: the greedy group
  takes every character up to the first newline, and \<^verbatim>\<open>$\<close> holds at the end of the subject
  or just before a newline that ends it. \<open>opt_dot_rest\<close> is \<^verbatim>\<open>\.?(.*)$\<close>: the dot is taken
  when it is there, and given back if the rest then fails. \<open>conflict_search\<close> is the lazy
  first group: it grows by one character (never a newline) each time the rest of the
  pattern fails at its end.
\<close>

definition sep :: "string \<Rightarrow> string option" where
  "sep s = (case lit ''.'' s of Some r \<Rightarrow> Some r | None \<Rightarrow> lit ''%2F'' s)"

definition rest_of_line :: "string \<Rightarrow> string option" where
  "rest_of_line s =
     (let g = takeWhile (\<lambda>c. c \<noteq> newline) s;
          r = dropWhile (\<lambda>c. c \<noteq> newline) s
      in if r = [] \<or> r = [newline] then Some g else None)"

definition opt_dot_rest :: "string \<Rightarrow> string option" where
  "opt_dot_rest s =
     (case lit ''.'' s of
        Some r \<Rightarrow> (case rest_of_line r of Some g \<Rightarrow> Some g | None \<Rightarrow> rest_of_line s)
      | None \<Rightarrow> rest_of_line s)"

definition conflict_tail :: "string \<Rightarrow> string option" where
  "conflict_tail s =
     Option.bind (sep s) (\<lambda>r0.
     Option.bind (lit ''sync-conflict-'' r0) (\<lambda>r1.
     Option.bind (rep is_digit 8 r1) (\<lambda>r2.
     Option.bind (lit ''-'' r2) (\<lambda>r3.
     Option.bind (rep is_digit 6 r3) (\<lambda>r4.
     Option.bind (lit ''-'' r4) (\<lambda>r5.
     Option.bind (rep is_word 7 r5) opt_dot_rest))))))"

fun conflict_search :: "string \<Rightarrow> string \<Rightarrow> (string \<times> string) option" where
  "conflict_search pre [] =
     (case conflict_tail [] of Some g \<Rightarrow> Some (pre, g) | None \<Rightarrow> None)"
| "conflict_search pre (c # cs) =
     (case conflict_tail (c # cs) of
        Some g \<Rightarrow> Some (pre, g)
      | None \<Rightarrow> if c = newline then None else conflict_search (pre @ [c]) cs)"

text \<open>\<^verbatim>\<open>CONFLICT_REGEX.match(s)\<close>: \<open>None\<close>, or the two groups.\<close>

definition CONFLICT_REGEX :: "string \<Rightarrow> (string \<times> string) option" where
  "CONFLICT_REGEX s = conflict_search [] s"

text \<open>
  The pattern of \<^verbatim>\<open>find_backup_file\<close>,
  \<^verbatim>\<open>rf"{re.escape(STVERSIONS_DIR)}/{re.escape(conflict_base)}~\d{{8}}-\d{{6}}\." + re.escape(ext)\<close>,
  applied with \<^verbatim>\<open>pattern.match\<close>: it is anchored at the start of the candidate only, so
  the result is what follows the match.
\<close>

definition backup_pattern :: "string \<Rightarrow> string \<Rightarrow> string \<Rightarrow> string option" where
  "backup_pattern conflict_base ext s =
     Option.bind (lit STVERSIONS_DIR s) (\<lambda>r0.
     Option.bind (lit ''/'' r0) (\<lambda>r1.
     Option.bind (lit conflict_base r1) (\<lambda>r2.
     Option.bind (lit ''~'' r2) (\<lambda>r3.
     Option.bind (rep is_digit 8 r3) (\<lambda>r4.
     Option.bind (lit ''-'' r4) (\<lambda>r5.
     Option.bind (rep is_digit 6 r5) (\<lambda>r6.
     Option.bind (lit ''.'' r6) (\<lambda>r7.
     lit ext r7))))))))"

section \<open>The world the program runs in\<close>

text \<open>
  \<open>files\<close> holds the files the program can see (\<^verbatim>\<open>os.path.isfile\<close>), by path. \<open>trace\<close> records
  every call the program makes to the outside, in order: the process query, the status
  request, a directory walk, an \<^verbatim>\<open>isfile\<close> test, a run of the merge utility, a removal, a
  line appended to the log (\<open>Log message\<close> stands for the line
  \<^verbatim>\<open>[timestamp] message\<close> written by \<^verbatim>\<open>log_run\<close>) and the settling delay.
\<close>

datatype error = FileNotFoundError | OSError

datatype event =
    Pgrep
  | Status "string option"
  | Walk path
  | IsFile path
  | Merge path path path
  | Remove path
  | Log string
  | Sleep

record world =
  files :: "path \<rightharpoonup> content"
  trace :: "event list"

text \<open>
  What the outside answers. \<open>proc\<close> is the outcome of starting a utility with
  \<^verbatim>\<open>subprocess\<close>, as \<^verbatim>\<open>subprocess.check_output(["pgrep", "-x", "Obsidian"])\<close> does: the utility
  ran and exited with a status, or it could not be started at all (an \<^verbatim>\<open>OSError\<close>, not a
  \<^verbatim>\<open>CalledProcessError\<close>). \<open>reply\<close> is the outcome of the status request: a JSON object
  with its \<^verbatim>\<open>state\<close> field, or any exception with its message.
\<close>

datatype proc = Exited int | NotStarted

datatype reply = State "string option" | Fault string

text \<open>
  \<open>getmtime\<close> gives a file's modification time, or \<open>None\<close> for \<^verbatim>\<open>FileNotFoundError\<close>;
  \<open>walk_order\<close> is the order in which \<^verbatim>\<open>os.walk\<close> comes across paths; \<open>git_merge_file\<close> is
  \<^verbatim>\<open>subprocess.run\<close> of \<^verbatim>\<open>git merge-file --union original backup conflict\<close>: from the files
  and the three paths, whether the utility could be started and its exit status (a \<open>proc\<close>, as
  for the process query) and, when it writes its result, the new content of \<^verbatim>\<open>original\<close>
  (the only file it writes). \<open>now\<close> is \<^verbatim>\<open>time.time()\<close>; times are real
  numbers and \<^verbatim>\<open>now - seconds\<close> is taken exactly.
\<close>

record env =
  pgrep_result :: proc
  FOLDER_ID :: "string option"
  status_reply :: reply
  now :: real
  getmtime :: "path \<Rightarrow> real option"
  walk_order :: "path list"
  git_merge_file :: "(path \<rightharpoonup> content) \<Rightarrow> path \<Rightarrow> path \<Rightarrow> path \<Rightarrow> proc \<times> content option"

definition emit :: "event \<Rightarrow> world \<Rightarrow> world" where
  "emit ev w = w\<lparr>trace := trace w @ [ev]\<rparr>"

definition isfile :: "world \<Rightarrow> path \<Rightarrow> bool" where
  "isfile w p = (files w p \<noteq> None)"

text \<open>
  A walk from \<open>dir\<close> yields, each once and in the order of \<open>walk_order\<close>, the files that are
  there at that moment and lie below \<open>dir\<close>, by their paths relative to the working
  directory (\<^verbatim>\<open>os.path.join(dirpath, name)\<close> names the same file).
\<close>

definition below :: "path \<Rightarrow> path \<Rightarrow> bool" where
  "below dir p = (dir = ''.'' \<or> prefix (dir @ ''/'') p)"

definition os_walk :: "env \<Rightarrow> world \<Rightarrow> path \<Rightarrow> path list" where
  "os_walk e w dir = filter (\<lambda>p. below dir p \<and> isfile w p) (remdups (walk_order e))"

section \<open>Utilities\<close>

definition log_run :: "string \<Rightarrow> world \<Rightarrow> world" where
  "log_run message w = emit (Log message) w"

definition is_obsidian_running :: "proc \<Rightarrow> world \<Rightarrow> (error + bool) \<times> world" where
  "is_obsidian_running q w =
     (let w1 = emit Pgrep w in
      case q of
        Exited returncode \<Rightarrow> if returncode = 0 then (Inr True, w1) else (Inr False, w1)
      | NotStarted \<Rightarrow> (Inl OSError, w1))"

definition is_syncthing_idle :: "reply \<Rightarrow> string option \<Rightarrow> world \<Rightarrow> bool \<times> world" where
  "is_syncthing_idle r folder_id w =
     (let w1 = emit (Status folder_id) w in
      case r of
        State s \<Rightarrow> (s = Some ''idle'', w1)
      | Fault msg \<Rightarrow> (False, log_run (''Error checking Syncthing status: '' @ msg) w1))"

fun recent_scan :: "(path \<Rightarrow> real option) \<Rightarrow> real \<Rightarrow> int \<Rightarrow> path list \<Rightarrow> bool" where
  "recent_scan stat t0 seconds [] = True"
| "recent_scan stat t0 seconds (full_path # ps) =
     (case stat full_path of
        None \<Rightarrow> recent_scan stat t0 seconds ps
      | Some t \<Rightarrow> if t > t0 - real_of_int seconds then False
                 else recent_scan stat t0 seconds ps)"

definition no_recent_file_changes :: "env \<Rightarrow> world \<Rightarrow> path \<Rightarrow> int \<Rightarrow> bool \<times> world" where
  "no_recent_file_changes e w dir seconds =
     (recent_scan (getmtime e) (now e) seconds (os_walk e w dir), emit (Walk dir) w)"

section \<open>Merging logic\<close>

text \<open>\<^verbatim>\<open>find_conflict_files()\<close>, with its default \<^verbatim>\<open>base_dir = "."\<close> (the program's only call).\<close>

definition find_conflict_files :: "env \<Rightarrow> world \<Rightarrow> path list \<times> world" where
  "find_conflict_files e w =
     (filter (\<lambda>rel_path. CONFLICT_REGEX rel_path \<noteq> None) (os_walk e w ''.''),
      emit (Walk ''.'') w)"

definition find_backup_file :: "env \<Rightarrow> world \<Rightarrow> string \<Rightarrow> string \<Rightarrow> path option \<times> world" where
  "find_backup_file e w conflict_base ext =
     (List.find (\<lambda>candidate. backup_pattern conflict_base ext candidate \<noteq> None)
        (os_walk e w STVERSIONS_DIR),
      emit (Walk STVERSIONS_DIR) w)"

text \<open>
  \<^verbatim>\<open>merge_files\<close> has no handler: when \<^verbatim>\<open>git\<close> cannot be started, \<^verbatim>\<open>subprocess.run\<close> raises and
  the exception leaves \<^verbatim>\<open>merge_files\<close>, \<^verbatim>\<open>process_conflict\<close> and \<^verbatim>\<open>main\<close>.
\<close>

definition merge_files :: "env \<Rightarrow> world \<Rightarrow> path \<Rightarrow> path \<Rightarrow> path \<Rightarrow> (error + bool) \<times> world" where
  "merge_files e w original backup conflict =
     (let w1 = emit (Merge original backup conflict) w in
      case git_merge_file e (files w) original backup conflict of
        (NotStarted, out) \<Rightarrow> (Inl OSError, w1)
      | (Exited returncode, out) \<Rightarrow>
          (Inr (returncode = 0),
           case out of None \<Rightarrow> w1 | Some c \<Rightarrow> w1\<lparr>files := (files w1)(original \<mapsto> c)\<rparr>))"

definition os_remove :: "world \<Rightarrow> path \<Rightarrow> (error + unit) \<times> world" where
  "os_remove w p =
     (let w1 = emit (Remove p) w in
      if isfile w p then (Inr (), w1\<lparr>files := (files w1)(p := None)\<rparr>)
      else (Inl FileNotFoundError, w1))"

definition original_of :: "string \<Rightarrow> string \<Rightarrow> path" where
  "original_of base_name ext = (if ext \<noteq> [] then base_name @ ''.'' @ ext else base_name)"

definition process_conflict :: "env \<Rightarrow> world \<Rightarrow> path \<Rightarrow> (error + bool) \<times> world" where
  "process_conflict e w conflict_path =
     (case CONFLICT_REGEX conflict_path of
        None \<Rightarrow> (Inr False, w)
      | Some (base_name, ext) \<Rightarrow>
          let original = original_of base_name ext;
              w1 = emit (IsFile original) w
          in if \<not> isfile w1 original then (Inr False, w1)
             else
               let (backup, w2) = find_backup_file e w1 base_name ext in
               (case backup of
                  None \<Rightarrow> (Inr False, w2)
                | Some b \<Rightarrow>
                    if b = [] then (Inr False, w2)
                    else
                      (case merge_files e w2 original b conflict_path of
                         (Inl err, w3) \<Rightarrow> (Inl err, w3)
                       | (Inr ok, w3) \<Rightarrow>
                           if ok then
                             (case os_remove w3 conflict_path of
                                (Inl err, w4) \<Rightarrow> (Inl err, w4)
                              | (Inr u, w4) \<Rightarrow> (Inr True, w4))
                           else (Inr False, w3))))"

section \<open>Main\<close>

text \<open>Python's \<^verbatim>\<open>str\<close> of a length and \<^verbatim>\<open>sep.join\<close>.\<close>

definition digit_char :: "nat \<Rightarrow> char" where
  "digit_char d = char_of (48 + d)"

fun str_nat :: "nat \<Rightarrow> string" where
  "str_nat n = (if n < 10 then [digit_char n] else str_nat (n div 10) @ [digit_char (n mod 10)])"

declare str_nat.simps [simp del]

fun join :: "string \<Rightarrow> string list \<Rightarrow> string" where
  "join s [] = []"
| "join s [x] = x"
| "join s (x # y # ys) = x @ s @ join s (y # ys)"

definition summary :: "path list \<Rightarrow> string" where
  "summary resolved_files =
     (if resolved_files \<noteq> [] then
        ''Resolved '' @ str_nat (length resolved_files) @ '' conflict(s): ''
          @ join '', '' resolved_files
      else ''No conflicts found'')"

text \<open>The loop of \<^verbatim>\<open>main\<close> over the conflicts, with \<^verbatim>\<open>resolved_files\<close> as it grows.\<close>

fun process_all :: "env \<Rightarrow> world \<Rightarrow> path list \<Rightarrow> path list \<Rightarrow> (error + path list) \<times> world" where
  "process_all e w resolved_files [] = (Inr resolved_files, w)"
| "process_all e w resolved_files (conflict # conflicts) =
     (case process_conflict e w conflict of
        (Inl err, w1) \<Rightarrow> (Inl err, w1)
      | (Inr ok, w1) \<Rightarrow>
          process_all e w1 (if ok then resolved_files @ [conflict] else resolved_files) conflicts)"

definition main :: "env \<Rightarrow> world \<Rightarrow> (error + unit) \<times> world" where
  "main e w =
     (case is_obsidian_running (pgrep_result e) w of
        (Inl err, w1) \<Rightarrow> (Inl err, w1)
      | (Inr running, w1) \<Rightarrow>
          if running then (Inr (), log_run ''Skipped: Obsidian is running'' w1)
          else
            let (idle, w2) = is_syncthing_idle (status_reply e) (FOLDER_ID e) w1 in
            if \<not> idle then (Inr (), log_run ''Skipped: Syncthing is active'' w2)
            else
              let (quiet, w3) = no_recent_file_changes e w2 CHECK_DIR MIN_IDLE_TIME in
              if \<not> quiet then (Inr (), log_run ''Skipped: recent file changes detected'' w3)
              else
                let w4 = emit Sleep w3;
                    (conflicts, w5) = find_conflict_files e w4
                in (case process_all e w5 [] conflicts of
                      (Inl err, w6) \<Rightarrow> (Inl err, w6)
                    | (Inr resolved_files, w6) \<Rightarrow> (Inr (), log_run (summary resolved_files) w6)))"


section \<open>Notions the specification speaks of\<close>

text \<open>
  The three conditions under which an artifact may go: its path matches, the reconstructed
  original is a file, \<^verbatim>\<open>find_backup_file\<close> finds a backup, and the merge utility runs and exits
  with status 0 (\<open>mergeable\<close>); and the case in which the first two hold and the merge utility
  cannot be started (\<open>merge_not_started\<close>).
\<close>

definition mergeable :: "env \<Rightarrow> world \<Rightarrow> path \<Rightarrow> bool" where
  "mergeable e w conflict_path =
     (case CONFLICT_REGEX conflict_path of
        None \<Rightarrow> False
      | Some (base_name, ext) \<Rightarrow>
          isfile w (original_of base_name ext) \<and>
          (case fst (find_backup_file e w base_name ext) of
             None \<Rightarrow> False
           | Some backup \<Rightarrow>
               fst (git_merge_file e (files w) (original_of base_name ext) backup conflict_path)
                 = Exited 0))"

definition merge_not_started :: "env \<Rightarrow> world \<Rightarrow> path \<Rightarrow> bool" where
  "merge_not_started e w conflict_path =
     (case CONFLICT_REGEX conflict_path of
        None \<Rightarrow> False
      | Some (base_name, ext) \<Rightarrow>
          isfile w (original_of base_name ext) \<and>
          (case fst (find_backup_file e w base_name ext) of
             None \<Rightarrow> False
           | Some backup \<Rightarrow>
               fst (git_merge_file e (files w) (original_of base_name ext) backup conflict_path)
                 = NotStarted))"

text \<open>
  The naming grammar of a conflict artifact: a base, the marker (a dot or \<^verbatim>\<open>%2F\<close>, then
  \<^verbatim>\<open>sync-conflict-\<close>, eight digits, a hyphen, six digits, a hyphen and seven word characters),
  an optional dot and an optional extension. Base and extension hold no newline; one
  newline may end the path.
\<close>

definition conflict_marker :: "string \<Rightarrow> bool" where
  "conflict_marker m =
     (\<exists>s d8 d6 w7. m = s @ ''sync-conflict-'' @ d8 @ ''-'' @ d6 @ ''-'' @ w7 \<and>
        (s = ''.'' \<or> s = ''%2F'') \<and> length d8 = 8 \<and> list_all is_digit d8 \<and>
        length d6 = 6 \<and> list_all is_digit d6 \<and> length w7 = 7 \<and> list_all is_word w7)"

definition conflict_grammar :: "string \<Rightarrow> bool" where
  "conflict_grammar p =
     (\<exists>b m dot x fin. p = b @ m @ dot @ x @ fin \<and> conflict_marker m \<and>
        (dot = [] \<or> dot = ''.'') \<and> (fin = [] \<or> fin = [newline]) \<and>
        newline \<notin> set b \<and> newline \<notin> set x)"

text \<open>The messages logged in a trace, in order.\<close>

fun log_lines :: "event list \<Rightarrow> string list" where
  "log_lines [] = []"
| "log_lines (Log message # evs) = message # log_lines evs"
| "log_lines (ev # evs) = log_lines evs"




section \<open>Example worlds\<close>

text \<open>
  A note, its conflict artifact and its backup; a world with the artifact alone; a store with
  two backups of the note; a note without extension; and variations of the surroundings.
\<close>

definition demo_conflict :: path where
  "demo_conflict = ''notes/a.sync-conflict-20240102-130000-abcd123.md''"

definition demo_backup :: path where
  "demo_backup = ''.stversions/notes/a~20240101-120000.md''"

definition demo_env :: env where
  "demo_env =
     \<lparr>pgrep_result = Exited 1,
      FOLDER_ID = Some ''vault'',
      status_reply = State (Some ''idle''),
      now = 1000000,
      getmtime = (\<lambda>p. Some 0),
      walk_order = [''notes/a.md'', demo_conflict, demo_backup],
      git_merge_file = (\<lambda>fs original backup conflict.
        case (fs original, fs backup, fs conflict) of
          (Some mine, Some base, Some theirs) \<Rightarrow> (Exited 0, Some (mine @ theirs))
        | _ \<Rightarrow> (Exited 255, None))\<rparr>"

definition demo_world :: world where
  "demo_world =
     \<lparr>files = [''notes/a.md'' \<mapsto> ''A B'', demo_backup \<mapsto> ''A B'', demo_conflict \<mapsto> ''A C''],
      trace = []\<rparr>"

definition bare_world :: world where
  "bare_world = \<lparr>files = [demo_conflict \<mapsto> ''A C''], trace = []\<rparr>"

definition old_backup :: path where
  "old_backup = ''.stversions/notes/a~20230101-120000.md''"

definition two_backups_env :: env where
  "two_backups_env = demo_env\<lparr>walk_order := [old_backup, demo_backup, ''notes/a.md'']\<rparr>"

definition two_backups_world :: world where
  "two_backups_world =
     \<lparr>files = [''notes/a.md'' \<mapsto> ''A B'', demo_backup \<mapsto> ''A B'', old_backup \<mapsto> ''A''],
      trace = []\<rparr>"

definition readme_conflict :: path where
  "readme_conflict = ''notes/README.sync-conflict-20240102-130000-abcd123''"

definition readme_backup :: path where
  "readme_backup = ''.stversions/notes/README~20240101-120000''"

definition readme_env :: env where
  "readme_env = demo_env\<lparr>walk_order := [''notes/README'', readme_conflict, readme_backup]\<rparr>"

definition readme_world :: world where
  "readme_world =
     \<lparr>files = [''notes/README'' \<mapsto> ''A B'', readme_backup \<mapsto> ''A B'', readme_conflict \<mapsto> ''A C''],
      trace = []\<rparr>"

definition busy_env :: env where
  "busy_env = demo_env\<lparr>pgrep_result := Exited 0\<rparr>"

definition racy_env :: env where
  "racy_env = demo_env\<lparr>getmtime := (\<lambda>p. if p = demo_conflict then None else Some 0)\<rparr>"

definition fresh_env :: env where
  "fresh_env = demo_env\<lparr>getmtime := (\<lambda>p. if p = demo_conflict then Some 999999 else Some 0)\<rparr>"

text \<open>
  Surroundings without a \<^verbatim>\<open>git\<close> that can be started, and with one whose merge fails; and a
  tree of twelve notes with their artifacts, met by the walk in an order that is not the
  alphabetical one, of which one (\<^verbatim>\<open>x\<close>) has no backup.
\<close>

definition nogit_env :: env where
  "nogit_env = demo_env\<lparr>git_merge_file := (\<lambda>fs original backup conflict. (NotStarted, None))\<rparr>"

definition failing_env :: env where
  "failing_env = demo_env\<lparr>git_merge_file := (\<lambda>fs original backup conflict. (Exited 1, None))\<rparr>"






section \<open>What a match says about its subject\<close>

lemma lit_Some: "lit a s = Some r \<Longrightarrow> s = a @ r"
  by (induction a s rule: lit.induct) (auto split: if_splits)

lemma lit_append: "lit a (a @ r) = Some r"
  by (induction a) auto

lemma rep_Some: "rep P n s = Some r \<Longrightarrow> \<exists>d. s = d @ r \<and> length d = n \<and> list_all P d"
proof (induction P n s rule: rep.induct)
  case (1 P s)
  then show ?case by simp
next
  case (2 P n)
  then show ?case by simp
next
  case (3 P n d ds)
  then have "P d" and "rep P n ds = Some r" by (auto split: if_splits)
  with 3 obtain d' where "ds = d' @ r" "length d' = n" "list_all P d'" by blast
  then have "d # ds = (d # d') @ r \<and> length (d # d') = Suc n \<and> list_all P (d # d')"
    using \<open>P d\<close> by simp
  then show ?case by blast
qed

lemma rep_length: "rep P n s = Some r \<Longrightarrow> length s = n + length r"
  by (drule rep_Some) auto

lemma lit_length: "lit a s = Some r \<Longrightarrow> length s = length a + length r"
  by (drule lit_Some) auto

lemma sep_length: "sep s = Some r \<Longrightarrow> length r < length s"
  by (auto simp: sep_def split: option.splits dest!: lit_length)

lemma rest_of_line_length: "rest_of_line s = Some g \<Longrightarrow> length g \<le> length s"
  by (auto simp: rest_of_line_def Let_def length_takeWhile_le split: if_splits)

lemma opt_dot_rest_length: "opt_dot_rest s = Some g \<Longrightarrow> length g \<le> length s"
  by (auto simp: opt_dot_rest_def split: option.splits dest!: rest_of_line_length lit_length)

lemma conflict_tail_length:
  assumes "conflict_tail s = Some g"
  shows "length g + 38 \<le> length s"
proof -
  from assms obtain r0 r1 r2 r3 r4 r5 r6 where
    s: "sep s = Some r0" "lit ''sync-conflict-'' r0 = Some r1" "rep is_digit 8 r1 = Some r2"
       "lit ''-'' r2 = Some r3" "rep is_digit 6 r3 = Some r4" "lit ''-'' r4 = Some r5"
       "rep is_word 7 r5 = Some r6" "opt_dot_rest r6 = Some g"
    by (auto simp: conflict_tail_def split: Option.bind_splits)
  show ?thesis
    using sep_length [OF s(1)] lit_length [OF s(2)] rep_length [OF s(3)] lit_length [OF s(4)]
      rep_length [OF s(5)] lit_length [OF s(6)] rep_length [OF s(7)] opt_dot_rest_length [OF s(8)]
    by simp
qed

lemma conflict_search_length:
  "conflict_search pre s = Some (b, x) \<Longrightarrow> length b + length x + 38 \<le> length pre + length s"
proof (induction pre s rule: conflict_search.induct)
  case (1 pre)
  then show ?case by (auto split: option.splits dest: conflict_tail_length)
next
  case (2 pre c cs)
  show ?case
  proof (cases "conflict_tail (c # cs)")
    case None
    with 2 show ?thesis by (auto split: if_splits)
  next
    case (Some g)
    with 2 show ?thesis by (auto dest: conflict_tail_length)
  qed
qed

lemma CONFLICT_REGEX_length:
  "CONFLICT_REGEX p = Some (b, x) \<Longrightarrow> length b + length x + 38 \<le> length p"
  by (auto simp: CONFLICT_REGEX_def dest: conflict_search_length)

lemma original_of_neq: "CONFLICT_REGEX p = Some (b, x) \<Longrightarrow> original_of b x \<noteq> p"
  by (auto simp: original_of_def dest!: CONFLICT_REGEX_length)

lemma rep_append: "list_all P d \<Longrightarrow> rep P (length d) (d @ r) = Some r"
  by (induction d) auto

lemma backup_pattern_iff:
  "(backup_pattern b x c \<noteq> None) =
   (\<exists>d8 d6 r. c = STVERSIONS_DIR @ ''/'' @ b @ ''~'' @ d8 @ ''-'' @ d6 @ ''.'' @ x @ r \<and>
      length d8 = 8 \<and> list_all is_digit d8 \<and> length d6 = 6 \<and> list_all is_digit d6)"
proof
  assume "backup_pattern b x c \<noteq> None"
  then obtain r0 r1 r2 r3 r4 r5 r6 r7 r where
    s: "lit STVERSIONS_DIR c = Some r0" "lit ''/'' r0 = Some r1" "lit b r1 = Some r2"
       "lit ''~'' r2 = Some r3" "rep is_digit 8 r3 = Some r4" "lit ''-'' r4 = Some r5"
       "rep is_digit 6 r5 = Some r6" "lit ''.'' r6 = Some r7" "lit x r7 = Some r"
    by (auto simp: backup_pattern_def split: Option.bind_splits)
  from rep_Some [OF s(5)] obtain d8 where d8: "r3 = d8 @ r4" "length d8 = 8" "list_all is_digit d8"
    by blast
  from rep_Some [OF s(7)] obtain d6 where d6: "r5 = d6 @ r6" "length d6 = 6" "list_all is_digit d6"
    by blast
  have "c = STVERSIONS_DIR @ ''/'' @ b @ ''~'' @ d8 @ ''-'' @ d6 @ ''.'' @ x @ r"
    using lit_Some [OF s(1)] lit_Some [OF s(2)] lit_Some [OF s(3)] lit_Some [OF s(4)]
      lit_Some [OF s(6)] lit_Some [OF s(8)] lit_Some [OF s(9)] d8(1) d6(1)
    by simp
  with d8 d6 show "\<exists>d8 d6 r. c = STVERSIONS_DIR @ ''/'' @ b @ ''~'' @ d8 @ ''-'' @ d6 @ ''.'' @ x @ r \<and>
      length d8 = 8 \<and> list_all is_digit d8 \<and> length d6 = 6 \<and> list_all is_digit d6"
    by blast
next
  assume "\<exists>d8 d6 r. c = STVERSIONS_DIR @ ''/'' @ b @ ''~'' @ d8 @ ''-'' @ d6 @ ''.'' @ x @ r \<and>
      length d8 = 8 \<and> list_all is_digit d8 \<and> length d6 = 6 \<and> list_all is_digit d6"
  then obtain d8 d6 r where c: "c = STVERSIONS_DIR @ ''/'' @ b @ ''~'' @ d8 @ ''-'' @ d6 @ ''.'' @ x @ r"
    and d: "length d8 = 8" "list_all is_digit d8" "length d6 = 6" "list_all is_digit d6"
    by blast
  have l: "lit a (a @ t) = Some t" for a t by (rule lit_append)
  have l1: "lit [k] (k # t) = Some t" for k t by simp
  have "backup_pattern b x c = Some r"
    unfolding backup_pattern_def c
    using rep_append [OF d(2), unfolded d(1)] rep_append [OF d(4), unfolded d(3)]
    by (simp add: l l1)
  then show "backup_pattern b x c \<noteq> None" by simp
qed

lemma rest_of_line_shape:
  assumes "rest_of_line s = Some g"
  shows "(s = g \<or> s = g @ [newline]) \<and> newline \<notin> set g"
proof -
  let ?P = "\<lambda>c. c \<noteq> newline"
  from assms have g: "g = takeWhile ?P s"
    and r: "dropWhile ?P s = [] \<or> dropWhile ?P s = [newline]"
    by (auto simp: rest_of_line_def Let_def split: if_splits)
  have "s = takeWhile ?P s @ dropWhile ?P s" by simp
  with g r have "s = g \<or> s = g @ [newline]" by (metis append_Nil2)
  moreover have "newline \<notin> set g" unfolding g by (auto dest: set_takeWhileD)
  ultimately show ?thesis by blast
qed

lemma opt_dot_rest_shape:
  assumes "opt_dot_rest s = Some g"
  shows "\<exists>dot fin. s = dot @ g @ fin \<and> (dot = [] \<or> dot = ''.'') \<and> (fin = [] \<or> fin = [newline]) \<and>
           newline \<notin> set g"
proof (cases "lit ''.'' s")
  case None
  with assms have "rest_of_line s = Some g" by (simp add: opt_dot_rest_def)
  from rest_of_line_shape [OF this] have "s = [] @ g @ [] \<or> s = [] @ g @ [newline]" "newline \<notin> set g"
    by auto
  then show ?thesis by blast
next
  case (Some r)
  then have s: "s = ''.'' @ r" by (rule lit_Some)
  show ?thesis
  proof (cases "rest_of_line r")
    case None
    with assms Some have "rest_of_line s = Some g" by (simp add: opt_dot_rest_def)
    from rest_of_line_shape [OF this] have "s = [] @ g @ [] \<or> s = [] @ g @ [newline]" "newline \<notin> set g"
      by auto
    then show ?thesis by blast
  next
    case (Some g')
    with assms \<open>lit ''.'' s = Some r\<close> have "rest_of_line r = Some g" by (simp add: opt_dot_rest_def)
    from rest_of_line_shape [OF this] s
    have "s = ''.'' @ g @ [] \<or> s = ''.'' @ g @ [newline]" "newline \<notin> set g"
      by auto
    then show ?thesis by blast
  qed
qed

lemma conflict_tail_shape:
  assumes "conflict_tail t = Some g"
  shows "\<exists>m dot fin. t = m @ dot @ g @ fin \<and> conflict_marker m \<and> (dot = [] \<or> dot = ''.'') \<and>
           (fin = [] \<or> fin = [newline]) \<and> newline \<notin> set g"
proof -
  from assms obtain r0 r1 r2 r3 r4 r5 r6 where
    s: "sep t = Some r0" "lit ''sync-conflict-'' r0 = Some r1" "rep is_digit 8 r1 = Some r2"
       "lit ''-'' r2 = Some r3" "rep is_digit 6 r3 = Some r4" "lit ''-'' r4 = Some r5"
       "rep is_word 7 r5 = Some r6" "opt_dot_rest r6 = Some g"
    by (auto simp: conflict_tail_def split: Option.bind_splits)
  from s(1) obtain sp where sp: "t = sp @ r0" "sp = ''.'' \<or> sp = ''%2F''"
    by (auto simp: sep_def split: option.splits dest!: lit_Some)
  from rep_Some [OF s(3)] obtain d8 where d8: "r1 = d8 @ r2" "length d8 = 8" "list_all is_digit d8"
    by blast
  from rep_Some [OF s(5)] obtain d6 where d6: "r3 = d6 @ r4" "length d6 = 6" "list_all is_digit d6"
    by blast
  from rep_Some [OF s(7)] obtain w7 where w7: "r5 = w7 @ r6" "length w7 = 7" "list_all is_word w7"
    by blast
  from opt_dot_rest_shape [OF s(8)] obtain dot fin where
    r6: "r6 = dot @ g @ fin" "dot = [] \<or> dot = ''.''" "fin = [] \<or> fin = [newline]" "newline \<notin> set g"
    by blast
  define m where "m = sp @ ''sync-conflict-'' @ d8 @ ''-'' @ d6 @ ''-'' @ w7"
  have "t = m @ dot @ g @ fin"
    using sp(1) lit_Some [OF s(2)] d8(1) lit_Some [OF s(4)] d6(1) lit_Some [OF s(6)] w7(1) r6(1)
    by (simp add: m_def)
  moreover have "conflict_marker m"
    unfolding conflict_marker_def m_def using sp(2) d8 d6 w7 by blast
  ultimately show ?thesis using r6 by blast
qed

lemma conflict_search_shape:
  "conflict_search pre s = Some (b, x) \<Longrightarrow> newline \<notin> set pre \<Longrightarrow>
   \<exists>m dot fin. pre @ s = b @ m @ dot @ x @ fin \<and> conflict_marker m \<and> (dot = [] \<or> dot = ''.'') \<and>
      (fin = [] \<or> fin = [newline]) \<and> newline \<notin> set b \<and> newline \<notin> set x"
proof (induction pre s rule: conflict_search.induct)
  case (1 pre)
  then show ?case by (auto split: option.splits dest!: conflict_tail_shape)
next
  case (2 pre c cs)
  show ?case
  proof (cases "conflict_tail (c # cs)")
    case None
    with 2 show ?thesis by (auto split: if_splits)
  next
    case (Some g)
    with "2.prems" have "b = pre" "x = g" by auto
    with conflict_tail_shape [OF Some] "2.prems"(2) show ?thesis by auto
  qed
qed

lemma CONFLICT_REGEX_shape:
  "CONFLICT_REGEX p = Some (b, x) \<Longrightarrow>
   \<exists>m dot fin. p = b @ m @ dot @ x @ fin \<and> conflict_marker m \<and> (dot = [] \<or> dot = ''.'') \<and>
      (fin = [] \<or> fin = [newline]) \<and> newline \<notin> set b \<and> newline \<notin> set x"
  using conflict_search_shape [of "[]" p b x] by (simp add: CONFLICT_REGEX_def)

lemma rest_of_line_complete:
  assumes "newline \<notin> set x" and "fin = [] \<or> fin = [newline]"
  shows "rest_of_line (x @ fin) = Some x"
proof -
  let ?P = "\<lambda>c. c \<noteq> newline"
  from assms(1) have a: "\<forall>c \<in> set x. ?P c" by auto
  from assms(2) have t: "takeWhile ?P fin = []" and d: "dropWhile ?P fin = fin" by auto
  have "takeWhile ?P (x @ fin) = x" using a t by (simp add: takeWhile_append2)
  moreover have "dropWhile ?P (x @ fin) = fin" using a d by (simp add: dropWhile_append2)
  ultimately show ?thesis using assms(2) by (auto simp: rest_of_line_def Let_def)
qed

lemma opt_dot_rest_complete:
  assumes "newline \<notin> set x" and "fin = [] \<or> fin = [newline]" and "dot = [] \<or> dot = ''.''"
  shows "opt_dot_rest (dot @ x @ fin) \<noteq> None"
proof -
  have r: "rest_of_line (x @ fin) = Some x" using assms(1,2) by (rule rest_of_line_complete)
  from assms(3) show ?thesis
  proof
    assume "dot = []"
    then show ?thesis using r by (simp add: opt_dot_rest_def split: option.splits)
  next
    assume "dot = ''.''"
    then show ?thesis using r by (simp add: opt_dot_rest_def)
  qed
qed

lemma sep_complete: "s = ''.'' \<or> s = ''%2F'' \<Longrightarrow> sep (s @ r) = Some r"
  by (auto simp: sep_def)

lemma conflict_tail_complete:
  assumes "conflict_marker m" and "opt_dot_rest r \<noteq> None"
  shows "conflict_tail (m @ r) \<noteq> None"
proof -
  from assms(1) obtain s d8 d6 w7 where
    m: "m = s @ ''sync-conflict-'' @ d8 @ ''-'' @ d6 @ ''-'' @ w7"
    and s: "s = ''.'' \<or> s = ''%2F''"
    and d: "length d8 = 8" "list_all is_digit d8" "length d6 = 6" "list_all is_digit d6"
           "length w7 = 7" "list_all is_word w7"
    unfolding conflict_marker_def by blast
  have l1: "lit [k] (k # t) = Some t" for k t by simp
  have "conflict_tail (m @ r) = opt_dot_rest r"
    unfolding conflict_tail_def m
    using sep_complete [OF s] lit_append [of "''sync-conflict-''"]
      rep_append [OF d(2), unfolded d(1)] rep_append [OF d(4), unfolded d(3)]
      rep_append [OF d(6), unfolded d(5)]
    by (simp add: l1)
  with assms(2) show ?thesis by simp
qed

lemma conflict_search_complete:
  "newline \<notin> set b \<Longrightarrow> conflict_tail t \<noteq> None \<Longrightarrow> conflict_search pre (b @ t) \<noteq> None"
proof (induction b arbitrary: pre)
  case Nil
  then show ?case by (cases t) (auto split: option.splits)
next
  case (Cons c b)
  then show ?case by (auto split: option.splits)
qed

lemma CONFLICT_REGEX_iff_grammar: "(CONFLICT_REGEX p \<noteq> None) = conflict_grammar p"
proof
  assume "CONFLICT_REGEX p \<noteq> None"
  then obtain b x where "CONFLICT_REGEX p = Some (b, x)" by auto
  from CONFLICT_REGEX_shape [OF this] show "conflict_grammar p"
    unfolding conflict_grammar_def by blast
next
  assume "conflict_grammar p"
  then obtain b m dot x fin where p: "p = b @ m @ dot @ x @ fin" and m: "conflict_marker m"
    and r: "dot = [] \<or> dot = ''.''" "fin = [] \<or> fin = [newline]" "newline \<notin> set x"
    and b: "newline \<notin> set b"
    unfolding conflict_grammar_def by blast
  have "conflict_tail (m @ dot @ x @ fin) \<noteq> None"
    using m opt_dot_rest_complete [OF r(3) r(2) r(1)] by (rule conflict_tail_complete)
  with b show "CONFLICT_REGEX p \<noteq> None"
    unfolding CONFLICT_REGEX_def p by (rule conflict_search_complete)
qed

lemma CONFLICT_REGEX_examples:
  "CONFLICT_REGEX (''notes/b.sync-conflict-20240101-120000-abc1234.md'' @ [newline])
     = Some (''notes/b'', ''md'')"
  "CONFLICT_REGEX ''notes%2Fsync-conflict-20240101-120000-abc_234'' = Some (''notes'', [])"
  "CONFLICT_REGEX
     ''a.sync-conflict-20240101-120000-abc1234.sync-conflict-20240102-120000-abc1234.md''
     = Some (''a'', ''sync-conflict-20240102-120000-abc1234.md'')"
  "CONFLICT_REGEX ''a.sync-conflict-2024010-120000-abc1234.md'' = None"
  by code_simp+

section \<open>The operations, step by step\<close>

lemma files_emit [simp]: "files (emit ev w) = files w"
  by (simp add: emit_def)

lemma trace_emit [simp]: "trace (emit ev w) = trace w @ [ev]"
  by (simp add: emit_def)

lemma isfile_emit [simp]: "isfile (emit ev w) p = isfile w p"
  by (simp add: isfile_def)

lemma os_walk_files: "files w' = files w \<Longrightarrow> os_walk e w' d = os_walk e w d"
  by (simp add: os_walk_def isfile_def)

lemma os_walk_emit [simp]: "os_walk e (emit ev w) d = os_walk e w d"
  by (rule os_walk_files) simp

lemma fst_find_backup_file_emit [simp]:
  "fst (find_backup_file e (emit ev w) b x) = fst (find_backup_file e w b x)"
  by (simp add: find_backup_file_def)

lemma snd_find_backup_file [simp]:
  "snd (find_backup_file e w b x) = emit (Walk STVERSIONS_DIR) w"
  by (simp add: find_backup_file_def)

lemma backup_pattern_Nil [simp]: "backup_pattern b x [] = None"
  by (simp add: backup_pattern_def STVERSIONS_DIR_def)

lemma find_backup_file_nonempty: "fst (find_backup_file e w b x) = Some c \<Longrightarrow> c \<noteq> []"
  by (auto simp: find_backup_file_def find_Some_iff)

lemma pc_nomatch: "CONFLICT_REGEX p = None \<Longrightarrow> process_conflict e w p = (Inr False, w)"
  by (simp add: process_conflict_def)

lemma pc_no_original:
  "CONFLICT_REGEX p = Some (b, x) \<Longrightarrow> \<not> isfile w (original_of b x) \<Longrightarrow>
   process_conflict e w p = (Inr False, emit (IsFile (original_of b x)) w)"
  by (simp add: process_conflict_def Let_def)

lemma pc_no_backup:
  "CONFLICT_REGEX p = Some (b, x) \<Longrightarrow> isfile w (original_of b x) \<Longrightarrow>
   fst (find_backup_file e w b x) = None \<Longrightarrow>
   process_conflict e w p = (Inr False, emit (Walk STVERSIONS_DIR) (emit (IsFile (original_of b x)) w))"
  by (simp add: process_conflict_def Let_def split_beta)

lemma pc_backup:
  "CONFLICT_REGEX p = Some (b, x) \<Longrightarrow> isfile w (original_of b x) \<Longrightarrow>
   fst (find_backup_file e w b x) = Some c \<Longrightarrow>
   process_conflict e w p =
     (let m = merge_files e (emit (Walk STVERSIONS_DIR) (emit (IsFile (original_of b x)) w))
                (original_of b x) c p
      in case fst m of
           Inl err \<Rightarrow> (Inl err, snd m)
         | Inr ok \<Rightarrow>
             if ok then (case os_remove (snd m) p of
                           (Inl err, w4) \<Rightarrow> (Inl err, w4)
                         | (Inr u, w4) \<Rightarrow> (Inr True, w4))
             else (Inr False, snd m))"
  by (frule find_backup_file_nonempty) (simp add: process_conflict_def Let_def split_beta)

lemma fst_merge_files:
  "fst (merge_files e w orig c p) =
     (case fst (git_merge_file e (files w) orig c p) of
        NotStarted \<Rightarrow> Inl OSError
      | Exited returncode \<Rightarrow> Inr (returncode = 0))"
  by (simp add: merge_files_def Let_def split: prod.splits proc.splits)

lemma files_snd_merge_files:
  "files (snd (merge_files e w orig c p)) =
     (case git_merge_file e (files w) orig c p of
        (NotStarted, out) \<Rightarrow> files w
      | (Exited returncode, None) \<Rightarrow> files w
      | (Exited returncode, Some k) \<Rightarrow> (files w)(orig \<mapsto> k))"
  by (simp add: merge_files_def Let_def split: prod.splits proc.splits option.splits)

lemma merge_files_not_started:
  "fst (git_merge_file e (files w) orig c p) = NotStarted \<Longrightarrow>
   merge_files e w orig c p = (Inl OSError, emit (Merge orig c p) w)"
  by (cases "git_merge_file e (files w) orig c p") (simp add: merge_files_def Let_def)

lemma files_merge_files:
  "q \<noteq> orig \<Longrightarrow> files (snd (merge_files e w orig c p)) q = files w q"
  by (simp add: files_snd_merge_files split: prod.splits proc.splits option.splits)

lemma isfile_merge_files:
  "isfile w q \<Longrightarrow> isfile (snd (merge_files e w orig c p)) q"
  by (simp add: isfile_def files_snd_merge_files split: prod.splits proc.splits option.splits)

lemma trace_merge_files:
  "trace (snd (merge_files e w orig c p)) = trace w @ [Merge orig c p]"
  by (simp add: merge_files_def Let_def split: prod.splits proc.splits option.splits)

lemma os_remove_present:
  "isfile w p \<Longrightarrow> os_remove w p = (Inr (), (emit (Remove p) w)\<lparr>files := (files w)(p := None)\<rparr>)"
  by (simp add: os_remove_def Let_def)

lemma os_remove_absent:
  "\<not> isfile w p \<Longrightarrow> os_remove w p = (Inl FileNotFoundError, emit (Remove p) w)"
  by (simp add: os_remove_def Let_def)

lemma log_lines_append [simp]: "log_lines (xs @ ys) = log_lines xs @ log_lines ys"
  by (induction xs rule: log_lines.induct) auto

text \<open>The seven ways through \<^verbatim>\<open>process_conflict\<close>.\<close>

lemma pc_cases
  [case_names nomatch no_original no_backup not_started merge_failed removed remove_failed]:
  obtains
    "CONFLICT_REGEX p = None" "process_conflict e w p = (Inr False, w)"
  | b x where "CONFLICT_REGEX p = Some (b, x)" "\<not> isfile w (original_of b x)"
      "process_conflict e w p = (Inr False, emit (IsFile (original_of b x)) w)"
  | b x where "CONFLICT_REGEX p = Some (b, x)" "isfile w (original_of b x)"
      "fst (find_backup_file e w b x) = None"
      "process_conflict e w p =
         (Inr False, emit (Walk STVERSIONS_DIR) (emit (IsFile (original_of b x)) w))"
  | b x c where "CONFLICT_REGEX p = Some (b, x)" "isfile w (original_of b x)"
      "fst (find_backup_file e w b x) = Some c"
      "fst (git_merge_file e (files w) (original_of b x) c p) = NotStarted"
      "process_conflict e w p =
         (Inl OSError, emit (Merge (original_of b x) c p)
            (emit (Walk STVERSIONS_DIR) (emit (IsFile (original_of b x)) w)))"
  | b x c wm returncode where "CONFLICT_REGEX p = Some (b, x)" "isfile w (original_of b x)"
      "fst (find_backup_file e w b x) = Some c"
      "wm = snd (merge_files e (emit (Walk STVERSIONS_DIR) (emit (IsFile (original_of b x)) w))
                   (original_of b x) c p)"
      "fst (git_merge_file e (files w) (original_of b x) c p) = Exited returncode"
      "returncode \<noteq> 0"
      "process_conflict e w p = (Inr False, wm)"
  | b x c wm where "CONFLICT_REGEX p = Some (b, x)" "isfile w (original_of b x)"
      "fst (find_backup_file e w b x) = Some c"
      "wm = snd (merge_files e (emit (Walk STVERSIONS_DIR) (emit (IsFile (original_of b x)) w))
                   (original_of b x) c p)"
      "fst (git_merge_file e (files w) (original_of b x) c p) = Exited 0"
      "isfile wm p"
      "process_conflict e w p = (Inr True, (emit (Remove p) wm)\<lparr>files := (files wm)(p := None)\<rparr>)"
  | b x c wm where "CONFLICT_REGEX p = Some (b, x)" "isfile w (original_of b x)"
      "fst (find_backup_file e w b x) = Some c"
      "wm = snd (merge_files e (emit (Walk STVERSIONS_DIR) (emit (IsFile (original_of b x)) w))
                   (original_of b x) c p)"
      "fst (git_merge_file e (files w) (original_of b x) c p) = Exited 0"
      "\<not> isfile wm p"
      "process_conflict e w p = (Inl FileNotFoundError, emit (Remove p) wm)"
proof (cases "CONFLICT_REGEX p")
  case None
  then show ?thesis using that(1) by (simp add: pc_nomatch)
next
  case (Some bx)
  obtain b x where bx: "bx = (b, x)" by (cases bx)
  note m = Some [unfolded bx]
  show ?thesis
  proof (cases "isfile w (original_of b x)")
    case False
    with m show ?thesis using that(2) by (simp add: pc_no_original)
  next
    case orig: True
    show ?thesis
    proof (cases "fst (find_backup_file e w b x)")
      case None
      with m orig show ?thesis using that(3) by (simp add: pc_no_backup)
    next
      case (Some c)
      let ?w2 = "emit (Walk STVERSIONS_DIR) (emit (IsFile (original_of b x)) w)"
      define wm where "wm = snd (merge_files e ?w2 (original_of b x) c p)"
      have f2: "files ?w2 = files w" by simp
      note pc = pc_backup [OF m orig Some, unfolded Let_def, folded wm_def]
      note fm = fst_merge_files [of e ?w2 "original_of b x" c p, unfolded f2]
      show ?thesis
      proof (cases "fst (git_merge_file e (files w) (original_of b x) c p)")
        case NotStarted
        then have "merge_files e ?w2 (original_of b x) c p
            = (Inl OSError, emit (Merge (original_of b x) c p) ?w2)"
          by (simp add: merge_files_not_started)
        with pc wm_def have "process_conflict e w p =
            (Inl OSError, emit (Merge (original_of b x) c p) ?w2)"
          by simp
        with m orig Some NotStarted show ?thesis using that(4) by blast
      next
        case (Exited returncode)
        show ?thesis
        proof (cases "returncode = 0")
          case False
          with pc fm Exited have "process_conflict e w p = (Inr False, wm)" by simp
          with m orig Some wm_def Exited False show ?thesis using that(5) by blast
        next
          case ok: True
          with Exited have g0: "fst (git_merge_file e (files w) (original_of b x) c p) = Exited 0"
            by simp
          show ?thesis
          proof (cases "isfile wm p")
            case True
            with pc fm g0 have "process_conflict e w p =
              (Inr True, (emit (Remove p) wm)\<lparr>files := (files wm)(p := None)\<rparr>)"
              by (simp add: os_remove_present)
            with m orig Some wm_def g0 True show ?thesis using that(6) by blast
          next
            case False
            with pc fm g0 have "process_conflict e w p = (Inl FileNotFoundError, emit (Remove p) wm)"
              by (simp add: os_remove_absent)
            with m orig Some wm_def g0 False show ?thesis using that(7) by blast
          qed
        qed
      qed
    qed
  qed
qed






lemma pc_unmergeable:
  assumes "\<not> mergeable e w p" and "\<not> merge_not_started e w p"
  shows "fst (process_conflict e w p) = Inr False \<and> files (snd (process_conflict e w p)) p = files w p"
proof (cases rule: pc_cases [where p = p and e = e and w = w])
  case (not_started b x c)
  with assms(2) show ?thesis by (simp add: merge_not_started_def)
next
  case (merge_failed b x c wm returncode)
  have "p \<noteq> original_of b x" using original_of_neq [OF merge_failed(1)] by blast
  then show ?thesis using merge_failed(4,7) by (simp add: files_merge_files)
next
  case (removed b x c wm)
  with assms(1) show ?thesis by (simp add: mergeable_def)
next
  case (remove_failed b x c wm)
  with assms(1) show ?thesis by (simp add: mergeable_def)
qed simp_all

lemma pc_merge_not_started:
  assumes "merge_not_started e w p"
  shows "fst (process_conflict e w p) = Inl OSError \<and> files (snd (process_conflict e w p)) = files w"
  using assms
  by (cases rule: pc_cases [where p = p and e = e and w = w])
     (auto simp: merge_not_started_def)

lemma pc_changed_mergeable:
  assumes "files (snd (process_conflict e w p)) p \<noteq> files w p"
  shows "mergeable e w p"
proof (cases rule: pc_cases [where p = p and e = e and w = w])
  case (merge_failed b x c wm returncode)
  have "p \<noteq> original_of b x" using original_of_neq [OF merge_failed(1)] by blast
  with assms merge_failed(4,7) show ?thesis by (simp add: files_merge_files)
next
  case (removed b x c wm)
  then show ?thesis by (simp add: mergeable_def)
next
  case (remove_failed b x c wm)
  then show ?thesis by (simp add: mergeable_def)
qed (use assms in simp_all)

lemma pc_mergeable:
  assumes "mergeable e w p" and "isfile w p"
  shows "fst (process_conflict e w p) = Inr True \<and> \<not> isfile (snd (process_conflict e w p)) p"
proof (cases rule: pc_cases [where p = p and e = e and w = w])
  case (remove_failed b x c wm)
  from assms(2) have "isfile wm p" unfolding remove_failed(4) by (simp add: isfile_merge_files)
  with remove_failed(6) show ?thesis by simp
next
  case (removed b x c wm)
  then show ?thesis by (simp add: isfile_def)
qed (use assms(1) in \<open>simp_all add: mergeable_def\<close>)

lemma pc_first_event:
  assumes "CONFLICT_REGEX p = Some (b, x)"
  shows "prefix (trace w @ [IsFile (original_of b x)]) (trace (snd (process_conflict e w p)))"
  using assms
  by (cases rule: pc_cases [where p = p and e = e and w = w]) (simp_all add: trace_merge_files)

lemma recent_scan_iff:
  "(\<not> recent_scan stat t0 seconds ps) =
   (\<exists>p \<in> set ps. \<exists>t. stat p = Some t \<and> t > t0 - real_of_int seconds)"
  by (induction ps) (auto split: option.splits)

lemma recent_scan_skip:
  "recent_scan stat t0 seconds ps =
   recent_scan stat t0 seconds (filter (\<lambda>p. stat p \<noteq> None) ps)"
  by (induction ps) (auto split: option.splits)















lemma str_nat_examples:
  "str_nat 0 = ''0''" "str_nat 7 = ''7''" "str_nat 10 = ''10''" "str_nat 1205 = ''1205''"
  by code_simp+

lemma join_examples:
  "join '', '' [] = []" "join '', '' [''a''] = ''a''" "join '', '' [''a'', ''b'', ''c''] = ''a, b, c''"
  by code_simp+





lemma snd_no_recent_file_changes [simp]:
  "snd (no_recent_file_changes e w dir seconds) = emit (Walk dir) w"
  by (simp add: no_recent_file_changes_def)


lemma snd_find_conflict_files [simp]: "snd (find_conflict_files e w) = emit (Walk ''.'') w"
  by (simp add: find_conflict_files_def)



section \<open>The claims\<close>

text \<open>
  C1, as amended. \<^verbatim>\<open>process_conflict\<close> deletes the artifact only when the reconstructed
  original is a file, \<^verbatim>\<open>find_backup_file\<close> returns a backup and the merge returns success:
  whenever the artifact's entry on disk differs afterwards, all three held. When the
  original is no file, or no backup is found, or the merge utility runs and exits with
  another status than 0, \<^verbatim>\<open>process_conflict\<close> returns \<^verbatim>\<open>False\<close> and the artifact is on disk as
  it was. When the merge utility cannot be started, \<^verbatim>\<open>process_conflict\<close> returns nothing: the
  exception of \<^verbatim>\<open>subprocess.run\<close> leaves it, and no file has changed. (And when all three
  hold for an artifact that is on disk, it returns \<^verbatim>\<open>True\<close> and the artifact is gone.)
\<close>

theorem process_conflict_deletes_only_when_mergeable:
  "(files (snd (process_conflict e w p)) p \<noteq> files w p \<longrightarrow> mergeable e w p) \<and>
   (\<not> mergeable e w p \<and> \<not> merge_not_started e w p \<longrightarrow>
      fst (process_conflict e w p) = Inr False \<and>
      files (snd (process_conflict e w p)) p = files w p) \<and>
   (merge_not_started e w p \<longrightarrow>
      fst (process_conflict e w p) = Inl OSError \<and>
      files (snd (process_conflict e w p)) = files w) \<and>
   (mergeable e w p \<and> isfile w p \<longrightarrow>
      fst (process_conflict e w p) = Inr True \<and> \<not> isfile (snd (process_conflict e w p)) p)"
  using pc_changed_mergeable [of e w p] pc_unmergeable [of e w p]
        pc_merge_not_started [of e w p] pc_mergeable [of e w p]
  by blast

theorem process_conflict_deletes_only_when_mergeable_witness:
  "mergeable demo_env demo_world demo_conflict \<and> isfile demo_world demo_conflict \<and>
   fst (process_conflict demo_env demo_world demo_conflict) = Inr True \<and>
   \<not> isfile (snd (process_conflict demo_env demo_world demo_conflict)) demo_conflict \<and>
   \<not> mergeable demo_env bare_world demo_conflict \<and>
   \<not> merge_not_started demo_env bare_world demo_conflict \<and>
   fst (process_conflict demo_env bare_world demo_conflict) = Inr False \<and>
   files (snd (process_conflict demo_env bare_world demo_conflict)) demo_conflict
     = files bare_world demo_conflict \<and>
   \<not> mergeable failing_env demo_world demo_conflict \<and>
   \<not> merge_not_started failing_env demo_world demo_conflict \<and>
   fst (process_conflict failing_env demo_world demo_conflict) = Inr False \<and>
   files (snd (process_conflict failing_env demo_world demo_conflict)) demo_conflict
     = files demo_world demo_conflict \<and>
   merge_not_started nogit_env demo_world demo_conflict \<and>
   fst (process_conflict nogit_env demo_world demo_conflict) = Inl OSError \<and>
   files (snd (process_conflict nogit_env demo_world demo_conflict)) = files demo_world"
proof -
  have t1: "mergeable demo_env demo_world demo_conflict" by code_simp
  have t2: "isfile demo_world demo_conflict" by code_simp
  have t3: "\<not> mergeable demo_env bare_world demo_conflict" by code_simp
  have t4: "\<not> merge_not_started demo_env bare_world demo_conflict" by code_simp
  have t5: "\<not> mergeable failing_env demo_world demo_conflict" by code_simp
  have t6: "\<not> merge_not_started failing_env demo_world demo_conflict" by code_simp
  have t7: "merge_not_started nogit_env demo_world demo_conflict" by code_simp
  from process_conflict_deletes_only_when_mergeable [of demo_env demo_world demo_conflict]
       process_conflict_deletes_only_when_mergeable [of demo_env bare_world demo_conflict]
       process_conflict_deletes_only_when_mergeable [of failing_env demo_world demo_conflict]
       process_conflict_deletes_only_when_mergeable [of nogit_env demo_world demo_conflict]
       t1 t2 t3 t4 t5 t6 t7
  show ?thesis by blast
qed

text \<open>
  The claim as it stands, that \<^verbatim>\<open>process_conflict\<close> returns \<^verbatim>\<open>False\<close> whenever the merge does
  not return success, does not hold when \<^verbatim>\<open>git\<close> cannot be started: the original is a file, a
  backup is found, and \<^verbatim>\<open>process_conflict\<close> raises.
\<close>

theorem process_conflict_raises_when_git_not_started:
  "isfile demo_world ''notes/a.md'' \<and>
   fst (find_backup_file nogit_env demo_world ''notes/a'' ''md'') = Some demo_backup \<and>
   fst (git_merge_file nogit_env (files demo_world) ''notes/a.md'' demo_backup demo_conflict)
     = NotStarted \<and>
   fst (process_conflict nogit_env demo_world demo_conflict) = Inl OSError"
  by code_simp

text \<open>
  C2. The claim: \<^verbatim>\<open>find_backup_file\<close> accepts exactly the candidates under the backup root
  that keep the relative path of the base name, carry the \<^verbatim>\<open>~date-time\<close> suffix and end with
  the extension, and asks for no extension at all when the extension is empty. The pattern
  does otherwise (\<open>backup_pattern_iff\<close> says what it accepts): it always asks for a dot after
  the time, so for a note without extension, \<^verbatim>\<open>notes/README\<close>, whose backup is
  \<^verbatim>\<open>.stversions/notes/README~20240101-120000\<close>, no backup is found and the conflict is never
  resolved, although \<^verbatim>\<open>process_conflict\<close> rebuilds the original of such a note without a dot;
  and it is not anchored at the end, so for the extension \<^verbatim>\<open>md\<close> a candidate ending in
  \<^verbatim>\<open>.mdx\<close> is accepted.
\<close>

theorem find_backup_file_misses_extensionless_backup:
  "CONFLICT_REGEX readme_conflict = Some (''notes/README'', '''') \<and>
   os_walk readme_env readme_world STVERSIONS_DIR = [readme_backup] \<and>
   fst (find_backup_file readme_env readme_world ''notes/README'' '''') = None \<and>
   fst (process_conflict readme_env readme_world readme_conflict) = Inr False \<and>
   backup_pattern ''notes/a'' ''md'' ''.stversions/notes/a~20240101-120000.mdx'' = Some ''x''"
  by code_simp

text \<open>
  C3. For every path of the conflict-naming grammar, \<^verbatim>\<open>CONFLICT_REGEX\<close> matches with a base
  name and an extension; the scanner yields the path whenever its walk comes across it; and
  that pair is the one \<^verbatim>\<open>process_conflict\<close> works with, in any world: the first thing it does
  is to test the original rebuilt from that very pair. For
  \<^verbatim>\<open>notes/todo.sync-conflict-20240101-120000-abc1234.md\<close> the pair is \<^verbatim>\<open>notes/todo\<close> and
  \<^verbatim>\<open>md\<close>.
\<close>

theorem scanner_and_process_conflict_derive_same_pair:
  "(conflict_grammar rel_path \<longrightarrow>
      (\<exists>base_name ext. CONFLICT_REGEX rel_path = Some (base_name, ext) \<and>
         ((rel_path \<in> set (fst (find_conflict_files e w))) = (rel_path \<in> set (os_walk e w ''.''))) \<and>
         (\<forall>e' w'. prefix (trace w' @ [IsFile (original_of base_name ext)])
                     (trace (snd (process_conflict e' w' rel_path)))))) \<and>
   CONFLICT_REGEX ''notes/todo.sync-conflict-20240101-120000-abc1234.md''
     = Some (''notes/todo'', ''md'')"
proof -
  have "CONFLICT_REGEX ''notes/todo.sync-conflict-20240101-120000-abc1234.md''
          = Some (''notes/todo'', ''md'')"
    by code_simp
  moreover have "\<exists>base_name ext. CONFLICT_REGEX rel_path = Some (base_name, ext) \<and>
         ((rel_path \<in> set (fst (find_conflict_files e w))) = (rel_path \<in> set (os_walk e w ''.''))) \<and>
         (\<forall>e' w'. prefix (trace w' @ [IsFile (original_of base_name ext)])
                     (trace (snd (process_conflict e' w' rel_path))))"
    if "conflict_grammar rel_path"
  proof -
    from that have "CONFLICT_REGEX rel_path \<noteq> None"
      using CONFLICT_REGEX_iff_grammar [of rel_path] by blast
    then obtain b x where m: "CONFLICT_REGEX rel_path = Some (b, x)" by auto
    then have "(rel_path \<in> set (fst (find_conflict_files e w))) = (rel_path \<in> set (os_walk e w ''.''))"
      by (simp add: find_conflict_files_def)
    with m show ?thesis using pc_first_event [OF m] by blast
  qed
  ultimately show ?thesis by blast
qed

theorem scanner_and_process_conflict_derive_same_pair_witness:
  "conflict_grammar demo_conflict \<and>
   CONFLICT_REGEX demo_conflict = Some (''notes/a'', ''md'') \<and>
   demo_conflict \<in> set (fst (find_conflict_files demo_env demo_world)) \<and>
   prefix [IsFile ''notes/a.md''] (trace (snd (process_conflict demo_env demo_world demo_conflict)))"
proof -
  have m: "CONFLICT_REGEX demo_conflict = Some (''notes/a'', ''md'')" by code_simp
  have g: "conflict_grammar demo_conflict"
    using m CONFLICT_REGEX_iff_grammar [of demo_conflict] by simp
  have h: "demo_conflict \<in> set (os_walk demo_env demo_world ''.'')" by code_simp
  have o: "original_of ''notes/a'' ''md'' = ''notes/a.md''" by code_simp
  have t: "trace demo_world = []" by (simp add: demo_world_def)
  from scanner_and_process_conflict_derive_same_pair [of demo_conflict demo_env demo_world] g m h
  have "demo_conflict \<in> set (fst (find_conflict_files demo_env demo_world)) \<and>
        prefix (trace demo_world @ [IsFile (original_of ''notes/a'' ''md'')])
          (trace (snd (process_conflict demo_env demo_world demo_conflict)))"
    by auto
  with g m show ?thesis by (simp add: o t)
qed

text \<open>
  C4, as amended. When the process query runs, \<^verbatim>\<open>is_obsidian_running\<close> returns \<^verbatim>\<open>True\<close> exactly
  when it exits with status 0; every other exit status (no such process, or an error of the
  query's own) gives \<^verbatim>\<open>False\<close> alike. When the query cannot be started at all, the exception
  is not caught: \<^verbatim>\<open>is_obsidian_running\<close> raises and returns nothing.
\<close>

theorem is_obsidian_running_by_exit_status:
  "is_obsidian_running (Exited returncode) w = (Inr (returncode = 0), emit Pgrep w) \<and>
   is_obsidian_running NotStarted w = (Inl OSError, emit Pgrep w)"
  by (simp add: is_obsidian_running_def Let_def)

theorem is_obsidian_running_by_exit_status_witness:
  "fst (is_obsidian_running (Exited 0) demo_world) = Inr True \<and>
   fst (is_obsidian_running (Exited 1) demo_world) = Inr False \<and>
   fst (is_obsidian_running (Exited 3) demo_world) = Inr False \<and>
   fst (is_obsidian_running NotStarted demo_world) = Inl OSError"
  using is_obsidian_running_by_exit_status [of 0 demo_world]
        is_obsidian_running_by_exit_status [of 1 demo_world]
        is_obsidian_running_by_exit_status [of 3 demo_world]
  by simp

text \<open>
  The claim as it stands, that a query which fails always gives \<^verbatim>\<open>False\<close>, does not hold for
  the query that cannot be started.
\<close>

theorem is_obsidian_running_query_not_started:
  "fst (is_obsidian_running NotStarted demo_world) \<noteq> Inr False"
  by (simp add: is_obsidian_running_def)

text \<open>
  C5. When the path matches and the reconstructed original (base name, dot, extension; the
  base name alone when the extension is empty) is not a file, \<^verbatim>\<open>process_conflict\<close> returns
  \<^verbatim>\<open>False\<close>, no file has changed, and all it did was to test for the original.
\<close>

theorem process_conflict_without_original:
  assumes "CONFLICT_REGEX conflict_path = Some (base_name, ext)"
    and "\<not> isfile w (if ext = [] then base_name else base_name @ ''.'' @ ext)"
  shows "fst (process_conflict e w conflict_path) = Inr False \<and>
         files (snd (process_conflict e w conflict_path)) = files w \<and>
         trace (snd (process_conflict e w conflict_path)) =
           trace w @ [IsFile (if ext = [] then base_name else base_name @ ''.'' @ ext)]"
proof -
  have o: "original_of base_name ext = (if ext = [] then base_name else base_name @ ''.'' @ ext)"
    by (simp add: original_of_def)
  from assms show ?thesis
    by (simp add: pc_no_original o [symmetric])
qed

theorem process_conflict_without_original_witness:
  "CONFLICT_REGEX demo_conflict = Some (''notes/a'', ''md'') \<and>
   \<not> isfile bare_world ''notes/a.md'' \<and>
   fst (process_conflict demo_env bare_world demo_conflict) = Inr False \<and>
   files (snd (process_conflict demo_env bare_world demo_conflict)) = files bare_world \<and>
   trace (snd (process_conflict demo_env bare_world demo_conflict)) = [IsFile ''notes/a.md'']"
proof -
  have h1: "CONFLICT_REGEX demo_conflict = Some (''notes/a'', ''md'')" by code_simp
  have h2: "\<not> isfile bare_world (if ''md'' = [] then ''notes/a'' else ''notes/a'' @ ''.'' @ ''md'')"
    by code_simp
  have t: "trace bare_world = []" by (simp add: bare_world_def)
  from process_conflict_without_original [OF h1 h2, of demo_env] h1 h2 t
  show ?thesis by simp
qed

text \<open>
  C6. \<^verbatim>\<open>find_backup_file\<close> returns the first candidate of the walk of the backup store that
  matches the pattern, whatever its timestamp: the candidate returned stands at an index
  before which nothing matches. It returns \<^verbatim>\<open>None\<close> exactly when no candidate matches.
\<close>

theorem find_backup_file_first_match:
  "fst (find_backup_file e w conflict_base ext) =
     (case filter (\<lambda>c. backup_pattern conflict_base ext c \<noteq> None) (os_walk e w STVERSIONS_DIR) of
        [] \<Rightarrow> None
      | c # cs \<Rightarrow> Some c) \<and>
   ((fst (find_backup_file e w conflict_base ext) = None) =
      (\<forall>c \<in> set (os_walk e w STVERSIONS_DIR). backup_pattern conflict_base ext c = None)) \<and>
   (\<forall>c. fst (find_backup_file e w conflict_base ext) = Some c \<longrightarrow>
      (\<exists>i < length (os_walk e w STVERSIONS_DIR).
         os_walk e w STVERSIONS_DIR ! i = c \<and> backup_pattern conflict_base ext c \<noteq> None \<and>
         (\<forall>j < i. backup_pattern conflict_base ext (os_walk e w STVERSIONS_DIR ! j) = None)))"
proof -
  let ?P = "\<lambda>c. backup_pattern conflict_base ext c \<noteq> None"
  have a: "List.find ?P xs = (case filter ?P xs of [] \<Rightarrow> None | c # cs \<Rightarrow> Some c)" for xs
    by (induction xs) auto
  have b: "(List.find ?P xs = None) = (\<forall>c \<in> set xs. backup_pattern conflict_base ext c = None)" for xs
    by (auto simp: find_None_iff)
  have c: "List.find ?P xs = Some c \<longrightarrow> (\<exists>i < length xs. xs ! i = c \<and> ?P c \<and>
        (\<forall>j < i. backup_pattern conflict_base ext (xs ! j) = None))" for xs c
    by (auto simp: find_Some_iff)
  show ?thesis
    unfolding find_backup_file_def fst_conv using a b c by blast
qed

theorem find_backup_file_first_match_witness:
  "os_walk two_backups_env two_backups_world STVERSIONS_DIR = [old_backup, demo_backup] \<and>
   backup_pattern ''notes/a'' ''md'' old_backup \<noteq> None \<and>
   backup_pattern ''notes/a'' ''md'' demo_backup \<noteq> None \<and>
   fst (find_backup_file two_backups_env two_backups_world ''notes/a'' ''md'') = Some old_backup \<and>
   fst (find_backup_file two_backups_env two_backups_world ''notes/b'' ''md'') = None"
proof -
  have w: "os_walk two_backups_env two_backups_world STVERSIONS_DIR = [old_backup, demo_backup]"
    by code_simp
  have m1: "backup_pattern ''notes/a'' ''md'' old_backup \<noteq> None" by code_simp
  have m2: "backup_pattern ''notes/a'' ''md'' demo_backup \<noteq> None" by code_simp
  have n1: "backup_pattern ''notes/b'' ''md'' old_backup = None" by code_simp
  have n2: "backup_pattern ''notes/b'' ''md'' demo_backup = None" by code_simp
  from find_backup_file_first_match [of two_backups_env two_backups_world "''notes/a''" "''md''"]
       find_backup_file_first_match [of two_backups_env two_backups_world "''notes/b''" "''md''"]
  show ?thesis
    by (simp add: w m1 m2 n1 n2)
qed




text \<open>
  C8. \<^verbatim>\<open>no_recent_file_changes\<close> returns \<^verbatim>\<open>False\<close> exactly when some file of the walk, there
  when its modification time is read, has a modification time later than \<^verbatim>\<open>now - seconds\<close>.
  A file that is gone when its time is read is skipped: the result is the result of the scan
  over the other files, and the function raises nothing.
\<close>

theorem no_recent_file_changes_iff:
  "(fst (no_recent_file_changes e w dir seconds) = False) =
     (\<exists>p \<in> set (os_walk e w dir). \<exists>t. getmtime e p = Some t \<and> t > now e - real_of_int seconds) \<and>
   fst (no_recent_file_changes e w dir seconds) =
     recent_scan (getmtime e) (now e) seconds
       (filter (\<lambda>p. getmtime e p \<noteq> None) (os_walk e w dir))"
  unfolding no_recent_file_changes_def fst_conv
  using recent_scan_iff [of "getmtime e" "now e" seconds "os_walk e w dir"]
        recent_scan_skip [of "getmtime e" "now e" seconds "os_walk e w dir"]
  by simp

theorem no_recent_file_changes_iff_witness:
  "getmtime racy_env demo_conflict = None \<and>
   fst (no_recent_file_changes racy_env demo_world CHECK_DIR MIN_IDLE_TIME) \<and>
   getmtime fresh_env demo_conflict = Some 999999 \<and>
   \<not> fst (no_recent_file_changes fresh_env demo_world CHECK_DIR MIN_IDLE_TIME)"
proof -
  have g: "getmtime racy_env demo_conflict = None" by code_simp
  have g': "getmtime fresh_env demo_conflict = Some 999999" by code_simp
  have r: "recent_scan (getmtime racy_env) (now racy_env) MIN_IDLE_TIME
       (filter (\<lambda>p. getmtime racy_env p \<noteq> None) (os_walk racy_env demo_world CHECK_DIR))"
    by code_simp
  have m: "demo_conflict \<in> set (os_walk fresh_env demo_world CHECK_DIR)" by code_simp
  have n: "(999999::real) > now fresh_env - real_of_int MIN_IDLE_TIME" by code_simp
  from no_recent_file_changes_iff [of racy_env demo_world CHECK_DIR MIN_IDLE_TIME] r
  have 1: "fst (no_recent_file_changes racy_env demo_world CHECK_DIR MIN_IDLE_TIME)" by simp
  from no_recent_file_changes_iff [of fresh_env demo_world CHECK_DIR MIN_IDLE_TIME] m n g'
  have 2: "\<not> fst (no_recent_file_changes fresh_env demo_world CHECK_DIR MIN_IDLE_TIME)" by blast
  from g g' 1 2 show ?thesis by blast
qed

text \<open>
  C9. When the process query finds the editor (exit status 0), \<^verbatim>\<open>main\<close> returns after two
  calls to the outside, the query and the log line \<^verbatim>\<open>Skipped: Obsidian is running\<close>: no status
  request, no walk, no merge, no removal, and the files are as they were, whatever the sync
  engine and the modification times would have said.
\<close>

theorem main_skips_when_obsidian_runs:
  assumes "pgrep_result e = Exited 0"
  shows "main e w = (Inr (), w\<lparr>trace := trace w @ [Pgrep, Log ''Skipped: Obsidian is running'']\<rparr>)"
  using assms by (simp add: main_def is_obsidian_running_def log_run_def emit_def)

theorem main_skips_when_obsidian_runs_witness:
  "pgrep_result busy_env = Exited 0 \<and>
   main busy_env demo_world =
     (Inr (), demo_world\<lparr>trace := [Pgrep, Log ''Skipped: Obsidian is running'']\<rparr>)"
proof -
  have h: "pgrep_result busy_env = Exited 0" by (simp add: busy_env_def)
  have t: "trace demo_world = []" by (simp add: demo_world_def)
  from main_skips_when_obsidian_runs [OF h, of demo_world] h t show ?thesis by simp
qed

text \<open>
  C10. For a path that does not match \<^verbatim>\<open>CONFLICT_REGEX\<close>, \<^verbatim>\<open>process_conflict\<close> returns \<^verbatim>\<open>False\<close>
  and the world is the one it was called in: no file read, written or deleted, no call to
  the outside.
\<close>

theorem process_conflict_no_match:
  "CONFLICT_REGEX conflict_path = None \<Longrightarrow> process_conflict e w conflict_path = (Inr False, w)"
  by (rule pc_nomatch)

theorem process_conflict_no_match_witness:
  "CONFLICT_REGEX ''notes/a.md'' = None \<and>
   process_conflict demo_env demo_world ''notes/a.md'' = (Inr False, demo_world)"
proof -
  have h: "CONFLICT_REGEX ''notes/a.md'' = None" by code_simp
  from process_conflict_no_match [OF h] h show ?thesis by simp
qed

end
